theory Spec2Isabelle
  imports Main "HOL-Library.Word"
begin

section \<open>Backend connection pool (backendpool.go, current version)\<close>

text \<open>
  Go's \<open>int64\<close> is a 64-bit word read in two's complement; \<open>+\<close> and \<open>-\<close> wrap.
  A \<open>*BackendConn\<close> is a reference into a store of \<open>BackendConn\<close> objects, because the
  queues of the pool hold pointers and the same pointer can be queued more than once.
  \<open>net.Conn\<close> is an opaque handle; \<open>nil\<close> is \<open>None\<close>. \<open>time.Now()\<close> is supplied by
  the caller of the model.
\<close>

type_synonym int64 = "64 word"
type_synonym conn_ref = nat
type_synonym net_conn = nat
type_synonym time = nat

record BackendConn =
  Conn :: "net_conn option"
  connUrl :: string
  lastCheckedTime :: "time option"
  errorCount :: int64

record BackendWSConnPool =
  availableBackendUrls :: "string list"
  registeredBackendUrls :: "string \<rightharpoonup> bool"
  inUseMap :: "string \<rightharpoonup> conn_ref"
  idleConnections :: "conn_ref list"
  idleConnCount :: int64
  erroredConnections :: "conn_ref list"
  maxIdleConnections :: int64
  maxAllowedErrorCount :: int64
  conns :: "conn_ref \<Rightarrow> BackendConn"
  nextRef :: conn_ref

datatype CopyDirection = CopyToBackend | CopyFromBacked

text \<open>Errors are values. \<open>Errorf\<close> constructors stand for the messages the code builds
  with \<open>fmt.Errorf\<close>; \<open>EOF\<close> is \<open>io.EOF\<close>; \<open>Failure\<close> is any other error of a stream,
  a dial or a parse; \<open>writeErr\<close> and \<open>readErr\<close> are the two wrapper structs of the copy
  loop (the direction of the buffer-limit error is the zero value, no direction).\<close>

datatype error =
    ErrAlreadyRegistered string
  | ErrPipeExists "128 word"
  | ErrStreamRunning
  | ErrNilConn
  | ErrClientErrored error
  | ErrBufferLimit
  | ErrInvalidWrite
  | ErrShortWrite
  | EOF
  | Failure nat
  | writeErr error "CopyDirection option"
  | readErr error CopyDirection

text \<open>The two library calls of \<open>newConn\<close>: \<open>url.Parse\<close> gives the host of a URL or fails,
  \<open>websocket.Dial\<close> gives a live connection or fails.\<close>

record dialer =
  url_Parse :: "string \<Rightarrow> error + string"
  websocket_Dial :: "string \<Rightarrow> string \<Rightarrow> error + net_conn"

definition NewBackendConnPool :: "int64 \<Rightarrow> int64 \<Rightarrow> BackendWSConnPool" where
  "NewBackendConnPool maxIdleConnCount maxAllowedErrorCountPerConn =
     \<lparr> availableBackendUrls = [],
       registeredBackendUrls = Map.empty,
       inUseMap = Map.empty,
       idleConnections = [],
       idleConnCount = 0,
       erroredConnections = [],
       maxIdleConnections = maxIdleConnCount,
       maxAllowedErrorCount = maxAllowedErrorCountPerConn,
       conns = (\<lambda>_. \<lparr> Conn = None, connUrl = [], lastCheckedTime = None, errorCount = 0 \<rparr>),
       nextRef = 0 \<rparr>"

definition AddToPool :: "string \<Rightarrow> BackendWSConnPool \<Rightarrow> error option \<times> BackendWSConnPool" where
  "AddToPool url bp =
     (if registeredBackendUrls bp url \<noteq> None then (Some (ErrAlreadyRegistered url), bp)
      else (None, bp \<lparr> availableBackendUrls := availableBackendUrls bp @ [url],
                        registeredBackendUrls := (registeredBackendUrls bp)(url \<mapsto> True) \<rparr>))"

text \<open>The three statements of \<open>AddToPool\<close> one by one. No lock is held across them, so the
  statements of two calls can alternate.\<close>

definition AddToPool_Load :: "string \<Rightarrow> BackendWSConnPool \<Rightarrow> bool" where
  "AddToPool_Load url bp \<longleftrightarrow> registeredBackendUrls bp url \<noteq> None"

definition AddToPool_PushBack :: "string \<Rightarrow> BackendWSConnPool \<Rightarrow> BackendWSConnPool" where
  "AddToPool_PushBack url bp = bp \<lparr> availableBackendUrls := availableBackendUrls bp @ [url] \<rparr>"

definition AddToPool_Store :: "string \<Rightarrow> BackendWSConnPool \<Rightarrow> BackendWSConnPool" where
  "AddToPool_Store url bp = bp \<lparr> registeredBackendUrls := (registeredBackendUrls bp)(url \<mapsto> True) \<rparr>"

definition MarkError :: "time \<Rightarrow> conn_ref \<Rightarrow> BackendWSConnPool \<Rightarrow> BackendWSConnPool" where
  "MarkError now c bp =
     (let cn = conns bp c in
      bp \<lparr> inUseMap := (inUseMap bp)(connUrl cn := None),
           conns := (conns bp)(c := cn \<lparr> lastCheckedTime := Some now,
                                          errorCount := errorCount cn + 1 \<rparr>),
           erroredConnections := erroredConnections bp @ [c] \<rparr>)"

definition tryAndFetchConnectionFromIdleList ::
  "BackendWSConnPool \<Rightarrow> conn_ref option \<times> BackendWSConnPool" where
  "tryAndFetchConnectionFromIdleList bp =
     (case idleConnections bp of
        [] \<Rightarrow> (None, bp)
      | c # cs \<Rightarrow> (Some c, bp \<lparr> idleConnections := cs \<rparr>))"

definition newConn :: "dialer \<Rightarrow> string \<Rightarrow> error + net_conn" where
  "newConn d wsUrl =
     (case url_Parse d wsUrl of
        Inl e \<Rightarrow> Inl e
      | Inr host \<Rightarrow>
          (case websocket_Dial d wsUrl host of
             Inl e \<Rightarrow> Inl e
           | Inr conn \<Rightarrow> Inr conn))"

text \<open>The tail of the loop body of \<open>GetConn\<close>: count down, store in the in-use map, return.\<close>

definition handOut :: "conn_ref \<Rightarrow> BackendWSConnPool \<Rightarrow> conn_ref option \<times> BackendWSConnPool" where
  "handOut c bp =
     (Some c, bp \<lparr> idleConnCount := idleConnCount bp - 1,
                   inUseMap := (inUseMap bp)(connUrl (conns bp c) \<mapsto> c) \<rparr>)"

text \<open>One pass through the body of the \<open>for\<close> loop of \<open>GetConn\<close>. The result \<open>None\<close> is a
  \<open>continue\<close> (on an empty idle queue, or after a failed dial), \<open>Some c\<close> is
  \<open>return conn\<close>.\<close>

definition GetConn_iter ::
  "dialer \<Rightarrow> time \<Rightarrow> BackendWSConnPool \<Rightarrow> conn_ref option \<times> BackendWSConnPool" where
  "GetConn_iter d now bp =
     (case tryAndFetchConnectionFromIdleList bp of
        (None, bp1) \<Rightarrow> (None, bp1)
      | (Some c, bp1) \<Rightarrow>
          (case Conn (conns bp1 c) of
             None \<Rightarrow>
               (case newConn d (connUrl (conns bp1 c)) of
                  Inl e \<Rightarrow> (None, MarkError now c bp1)
                | Inr netConn \<Rightarrow>
                    handOut c (bp1 \<lparr> conns := (conns bp1)(c := (conns bp1 c) \<lparr> Conn := Some netConn \<rparr>) \<rparr>))
           | Some _ \<Rightarrow> handOut c bp1))"

text \<open>\<open>GetConn\<close> alone, with no other goroutine running in between: it consumes one dialer and
  one clock reading per pass, and is still blocked (\<open>None\<close>) when they run out. On an empty
  idle queue the code sleeps in \<open>backOffWait\<close> before it continues; the sleep and its
  counter touch no state of the pool and are left out of the passes.\<close>

fun GetConn :: "(dialer \<times> time) list \<Rightarrow> BackendWSConnPool \<Rightarrow> conn_ref option \<times> BackendWSConnPool" where
  "GetConn [] bp = (None, bp)"
| "GetConn ((d, now) # rest) bp =
     (case GetConn_iter d now bp of
        (Some c, bp1) \<Rightarrow> (Some c, bp1)
      | (None, bp1) \<Rightarrow> GetConn rest bp1)"

text \<open>One pass of the idle filler goroutine; a pass that sleeps leaves the pool as it is.\<close>

definition idleConnectionFiller_iter :: "BackendWSConnPool \<Rightarrow> BackendWSConnPool" where
  "idleConnectionFiller_iter bp =
     (if sint (idleConnCount bp) > sint (maxIdleConnections bp) then bp
      else
        (case availableBackendUrls bp of
           [] \<Rightarrow> bp
         | front # rest \<Rightarrow>
             bp \<lparr> availableBackendUrls := rest,
                  idleConnCount := idleConnCount bp + 1,
                  idleConnections := idleConnections bp @ [nextRef bp],
                  conns := (conns bp)(nextRef bp :=
                     \<lparr> Conn = None, connUrl = front, lastCheckedTime = None, errorCount = 0 \<rparr>),
                  nextRef := Suc (nextRef bp) \<rparr>))"

text \<open>One pass of the errored-connection refresher goroutine.\<close>

definition erroredConnectionRefresher_iter :: "BackendWSConnPool \<Rightarrow> BackendWSConnPool" where
  "erroredConnectionRefresher_iter bp =
     (case erroredConnections bp of
        [] \<Rightarrow> bp
      | front # rest \<Rightarrow>
          (let bp1 = bp \<lparr> erroredConnections := rest \<rparr> in
           if sint (errorCount (conns bp1 front)) < sint (maxAllowedErrorCount bp1)
           then bp1 \<lparr> conns := (conns bp1)(front := (conns bp1 front) \<lparr> Conn := None \<rparr>),
                      idleConnections := idleConnections bp1 @ [front] \<rparr>
           else bp1))"

subsection \<open>Interleavings of the pool's operations\<close>

text \<open>
  A schedule is a list of actions, each one call of the public interface, one pass of the
  loop of \<open>GetConn\<close>, or one pass of a background goroutine, run one after the other:
  a call or a pass is taken as one step, although the code holds a lock only around the pop
  from the idle queue.
\<close>

datatype pool_action =
    CallAddToPool string
  | PassGetConn dialer time
  | CallMarkError time conn_ref
  | PassFiller
  | PassRefresher

fun pool_step :: "pool_action \<Rightarrow> BackendWSConnPool \<Rightarrow> BackendWSConnPool" where
  "pool_step (CallAddToPool url) bp = snd (AddToPool url bp)"
| "pool_step (PassGetConn d now) bp = snd (GetConn_iter d now bp)"
| "pool_step (CallMarkError now c) bp = MarkError now c bp"
| "pool_step PassFiller bp = idleConnectionFiller_iter bp"
| "pool_step PassRefresher bp = erroredConnectionRefresher_iter bp"

fun pool_run :: "pool_action list \<Rightarrow> BackendWSConnPool \<Rightarrow> BackendWSConnPool" where
  "pool_run [] bp = bp"
| "pool_run (a # as) bp = pool_run as (pool_step a bp)"


text \<open>The discipline of the pipe manager: \<open>MarkError\<close> is called on a handle that is in use.\<close>

fun in_use_args :: "pool_action list \<Rightarrow> BackendWSConnPool \<Rightarrow> bool" where
  "in_use_args [] bp = True"
| "in_use_args (CallMarkError now c # as) bp =
     (inUseMap bp (connUrl (conns bp c)) = Some c \<and>
      in_use_args as (pool_step (CallMarkError now c) bp))"
| "in_use_args (a # as) bp = in_use_args as (pool_step a bp)"

text \<open>The number of entries for a URL over the four locations. The in-use map is keyed by
  URL, so it holds the entries for \<open>u\<close> under the key \<open>u\<close>.\<close>

definition urlsOf :: "(conn_ref \<Rightarrow> BackendConn) \<Rightarrow> conn_ref list \<Rightarrow> string list" where
  "urlsOf store cs = map (\<lambda>c. connUrl (store c)) cs"

definition entriesFor :: "BackendWSConnPool \<Rightarrow> string \<Rightarrow> nat" where
  "entriesFor bp u =
     count_list (availableBackendUrls bp) u
     + count_list (urlsOf (conns bp) (idleConnections bp)) u
     + (case inUseMap bp u of None \<Rightarrow> 0 | Some c \<Rightarrow> 1)
     + count_list (urlsOf (conns bp) (erroredConnections bp)) u"


text \<open>The URLs held by the three queues, and the invariant of the pool: no URL twice in
  the queues, queued and in-use entries allocated, an in-use entry stored under its own URL
  and in no queue, and every URL of the pool registered.\<close>

definition locs :: "BackendWSConnPool \<Rightarrow> string list" where
  "locs bp = availableBackendUrls bp @ urlsOf (conns bp) (idleConnections bp)
             @ urlsOf (conns bp) (erroredConnections bp)"

definition pool_inv :: "BackendWSConnPool \<Rightarrow> bool" where
  "pool_inv bp \<longleftrightarrow>
     distinct (locs bp) \<and>
     (\<forall>c \<in> set (idleConnections bp). c < nextRef bp) \<and>
     (\<forall>c \<in> set (erroredConnections bp). c < nextRef bp) \<and>
     (\<forall>u c. inUseMap bp u = Some c \<longrightarrow>
        connUrl (conns bp c) = u \<and> c < nextRef bp \<and> u \<notin> set (locs bp)
        \<and> registeredBackendUrls bp u \<noteq> None) \<and>
     (\<forall>u \<in> set (locs bp). registeredBackendUrls bp u \<noteq> None)"


section \<open>Byte slices\<close>

text \<open>
  A Go slice is a window on a backing array: the loop of \<open>copyBuffer\<close> re-slices and appends,
  and after \<open>buf = append(pep.backendBuffer, ...)\<close> the read buffer and the staging buffer
  can share one array. So slices are modelled over a store of arrays. Every slice of this
  code starts at index 0 of its array. \<open>append\<close> writes in place when the capacity allows
  and otherwise moves to a new array, whose capacity the runtime chooses: the choice is the
  parameter \<open>grow\<close> (old capacity, needed length).
\<close>

type_synonym byte = "8 word"
type_synonym uuid = "128 word"

record slice =
  arr :: nat
  len :: nat
  cap :: nat

record memory =
  arrays :: "nat \<Rightarrow> byte list"
  fresh :: nat

definition make_bytes :: "nat \<Rightarrow> nat \<Rightarrow> memory \<Rightarrow> slice \<times> memory" where
  "make_bytes n c m =
     (\<lparr> arr = fresh m, len = n, cap = c \<rparr>,
      m \<lparr> arrays := (arrays m)(fresh m := replicate c 0), fresh := Suc (fresh m) \<rparr>)"

definition bytes_of :: "memory \<Rightarrow> slice \<Rightarrow> byte list" where
  "bytes_of m s = take (len s) (arrays m (arr s))"

text \<open>\<open>s[0:n]\<close>; the code only takes \<open>n\<close> up to the length of \<open>s\<close>.\<close>

definition reslice :: "slice \<Rightarrow> nat \<Rightarrow> slice" where
  "reslice s n = s \<lparr> len := n \<rparr>"

definition store_bytes :: "nat \<Rightarrow> nat \<Rightarrow> byte list \<Rightarrow> memory \<Rightarrow> memory" where
  "store_bytes a i xs m =
     m \<lparr> arrays := (arrays m)(a := take i (arrays m a) @ xs @ drop (i + length xs) (arrays m a)) \<rparr>"

definition append_bytes ::
  "(nat \<Rightarrow> nat \<Rightarrow> nat) \<Rightarrow> slice \<Rightarrow> byte list \<Rightarrow> memory \<Rightarrow> slice \<times> memory" where
  "append_bytes grow s xs m =
     (if len s + length xs \<le> cap s
      then (s \<lparr> len := len s + length xs \<rparr>, store_bytes (arr s) (len s) xs m)
      else
        (let c = grow (cap s) (len s + length xs) in
         (\<lparr> arr = fresh m, len = len s + length xs, cap = c \<rparr>,
          m \<lparr> arrays := (arrays m)(fresh m :=
                 bytes_of m s @ xs @ replicate (c - (len s + length xs)) 0),
              fresh := Suc (fresh m) \<rparr>)))"

section \<open>The persistent pipe and its copy loop (persistentpipe.go, copy.go)\<close>

text \<open>
  The copy loop in the sources has the receiver \<open>PreEmptablePipe\<close>, the former name of
  \<open>PersistentPipe\<close>, with the same fields. \<open>bufferByteLimit\<close> is a natural number: the
  constructor allocates \<open>make([]byte, 0, limit)\<close>, which panics on a negative limit.
\<close>

record PersistentPipe =
  ID :: uuid
  ClientID :: uuid
  ClientConn :: "nat option"
  BackendConn :: "conn_ref option"
  ClientErr :: "error option"
  BackendErr :: "error option"
  streamOn :: bool
  backendBuffer :: slice
  bufferByteLimit :: nat

definition NewPersistentPipe ::
  "uuid \<Rightarrow> uuid \<Rightarrow> nat option \<Rightarrow> conn_ref option \<Rightarrow> nat \<Rightarrow> memory \<Rightarrow> PersistentPipe \<times> memory" where
  "NewPersistentPipe newId clientID clientConn backendConn interruptMemoryLimitPerConnInBytes m =
     (case make_bytes 0 interruptMemoryLimitPerConnInBytes m of
        (bb, m1) \<Rightarrow>
          (\<lparr> ID = newId, ClientID = clientID, ClientConn = clientConn, BackendConn = backendConn,
             ClientErr = None, BackendErr = None, streamOn = False,
             backendBuffer = bb, bufferByteLimit = interruptMemoryLimitPerConnInBytes \<rparr>, m1))"

text \<open>What the two streams answer during one pass of the loop: the bytes and the error of
  \<open>src().Read(buf)\<close>, and the count and the error of \<open>dst().Write(...)\<close> if the pass calls
  it. A reader fills at most \<open>len(buf)\<close> bytes.\<close>

record io_step =
  rd_bytes :: "byte list"
  rd_err :: "error option"
  wr_n :: int
  wr_err :: "error option"

definition stream_Read :: "io_step \<Rightarrow> slice \<Rightarrow> memory \<Rightarrow> nat \<times> error option \<times> memory" where
  "stream_Read io p m =
     (let d = take (len p) (rd_bytes io)
      in (length d, rd_err io, store_bytes (arr p) 0 d m))"

text \<open>The local variables of one running \<open>copyBuffer\<close>.\<close>

record copy_locals =
  buf :: slice
  written :: int64
  err :: "error option"

datatype flow = Continue | Break

text \<open>What a pass does to the outside: a call of \<open>dst().Write\<close> with its argument and the
  answer it got, or a send on the error channel.\<close>

datatype event =
    Wrote CopyDirection "byte list" int "error option"
  | Sent error

type_synonym pass_result = "flow \<times> event list \<times> copy_locals \<times> PersistentPipe \<times> memory"

text \<open>The end of the loop body: the handling of the read error.\<close>

definition after_read ::
  "CopyDirection \<Rightarrow> error option \<Rightarrow> event list \<Rightarrow> copy_locals \<Rightarrow> PersistentPipe \<Rightarrow> memory \<Rightarrow> pass_result" where
  "after_read cd srcReadErr evs l p m =
     (case srcReadErr of
        None \<Rightarrow> (Continue, evs, l, p, m)
      | Some e \<Rightarrow>
          (if cd = CopyToBackend
           then (Break, evs, (if e \<noteq> EOF then l \<lparr> err := Some (readErr e cd) \<rparr> else l), p, m)
           else
             (let (p1, evs1) =
                    (if BackendErr p = None
                     then (p \<lparr> BackendErr := Some (readErr e cd) \<rparr>, evs @ [Sent (readErr e cd)])
                     else (p, evs))
              in if len (backendBuffer p1) > bufferByteLimit p1
                 then (Break, evs1, l \<lparr> err := Some (writeErr ErrBufferLimit None) \<rparr>, p1, m)
                 else (Continue, evs1, l, p1, m))))"

text \<open>\<open>pep.backendBuffer = append(pep.backendBuffer, buf[0:nr]...)\<close> after a failed or a
  short write towards the backend.\<close>

definition keep_for_later ::
  "(nat \<Rightarrow> nat \<Rightarrow> nat) \<Rightarrow> nat \<Rightarrow> copy_locals \<Rightarrow> PersistentPipe \<Rightarrow> memory \<Rightarrow> PersistentPipe \<times> memory" where
  "keep_for_later grow nr l p m =
     (case append_bytes grow (backendBuffer p) (bytes_of m (reslice (buf l) nr)) m of
        (bb, m1) \<Rightarrow> (p \<lparr> backendBuffer := bb \<rparr>, m1))"

text \<open>From \<open>dst().Write(buf[0:nr])\<close> to the end of the loop body.\<close>

definition write_and_after ::
  "(nat \<Rightarrow> nat \<Rightarrow> nat) \<Rightarrow> CopyDirection \<Rightarrow> io_step \<Rightarrow> error option \<Rightarrow> nat \<Rightarrow>
   copy_locals \<Rightarrow> PersistentPipe \<Rightarrow> memory \<Rightarrow> pass_result" where
  "write_and_after grow cd io srcReadErr nr l p m =
     (let evs = [Wrote cd (bytes_of m (reslice (buf l) nr)) (wr_n io) (wr_err io)];
          invalid = (wr_n io < 0 \<or> int nr < wr_n io);
          nw = (if invalid then 0 else wr_n io);
          ew = (if invalid \<and> wr_err io = None then Some ErrInvalidWrite else wr_err io);
          l1 = l \<lparr> written := written l + word_of_int nw \<rparr>
      in case ew of
           Some e \<Rightarrow>
             (if cd = CopyToBackend
              then (case keep_for_later grow nr l1 p m of
                      (p1, m1) \<Rightarrow> (Continue, evs, l1 \<lparr> err := Some (writeErr e (Some cd)) \<rparr>, p1, m1))
              else (Break, evs, l1 \<lparr> err := Some (writeErr e (Some cd)) \<rparr>, p, m))
         | None \<Rightarrow>
             (if int nr \<noteq> nw
              then
                (if cd = CopyToBackend
                 then (case keep_for_later grow nr l1 p m of
                         (p1, m1) \<Rightarrow>
                           (Continue, evs, l1 \<lparr> err := Some (writeErr ErrShortWrite (Some cd)) \<rparr>, p1, m1))
                 else (Break, evs, l1 \<lparr> err := Some (writeErr ErrShortWrite (Some cd)) \<rparr>, p, m))
              else
                after_read cd srcReadErr evs l1
                  (if len (backendBuffer p) > 0
                   then p \<lparr> backendBuffer := reslice (backendBuffer p) 0 \<rparr> else p) m))"

text \<open>One pass through the body of the \<open>for\<close> loop of \<open>copyBuffer\<close>, for either direction.\<close>

definition copyBuffer_iter ::
  "(nat \<Rightarrow> nat \<Rightarrow> nat) \<Rightarrow> CopyDirection \<Rightarrow> io_step \<Rightarrow>
   copy_locals \<Rightarrow> PersistentPipe \<Rightarrow> memory \<Rightarrow> pass_result" where
  "copyBuffer_iter grow cd io l p m =
     (if cd = CopyFromBacked \<and> BackendErr p \<noteq> None
      then
        (if len (backendBuffer p) > bufferByteLimit p
         then (Break, [], l \<lparr> err := Some (writeErr ErrBufferLimit None) \<rparr>, p, m)
         else (Continue, [], l, p, m))
      else
        (case stream_Read io (buf l) m of
           (nr, srcReadErr, m1) \<Rightarrow>
             (if nr > 0
              then
                (if cd = CopyToBackend \<and> BackendErr p \<noteq> None
                 then
                   (if len (backendBuffer p) + len (reslice (buf l) nr) > bufferByteLimit p
                    then (Break, [], l \<lparr> err := Some (writeErr ErrBufferLimit None) \<rparr>, p, m1)
                    else
                      (case append_bytes grow (backendBuffer p) (bytes_of m1 (reslice (buf l) nr)) m1 of
                         (bb, m2) \<Rightarrow> (Continue, [], l, p \<lparr> backendBuffer := bb \<rparr>, m2)))
                 else
                   (if cd = CopyToBackend \<and> BackendErr p = None \<and> len (backendBuffer p) > 0
                    then
                      (case append_bytes grow (backendBuffer p) (bytes_of m1 (reslice (buf l) nr)) m1 of
                         (b, m2) \<Rightarrow>
                           write_and_after grow cd io srcReadErr (len (backendBuffer p))
                             (l \<lparr> buf := b \<rparr>) p m2)
                    else write_and_after grow cd io srcReadErr nr l p m1))
              else after_read cd srcReadErr [] l p m1)))"

text \<open>The loop of one direction alone, with no other goroutine running in between, over
  the answers of the streams. The flag says whether the loop has left (\<open>break\<close>).\<close>

fun copyBuffer_loop ::
  "(nat \<Rightarrow> nat \<Rightarrow> nat) \<Rightarrow> CopyDirection \<Rightarrow> io_step list \<Rightarrow>
   copy_locals \<Rightarrow> PersistentPipe \<Rightarrow> memory \<Rightarrow> bool \<times> event list \<times> copy_locals \<times> PersistentPipe \<times> memory" where
  "copyBuffer_loop grow cd [] l p m = (False, [], l, p, m)"
| "copyBuffer_loop grow cd (io # ios) l p m =
     (case copyBuffer_iter grow cd io l p m of
        (Break, evs, l1, p1, m1) \<Rightarrow> (True, evs, l1, p1, m1)
      | (Continue, evs, l1, p1, m1) \<Rightarrow>
          (case copyBuffer_loop grow cd ios l1 p1 m1 of
             (left, evs2, l2, p2, m2) \<Rightarrow> (left, evs @ evs2, l2, p2, m2)))"

text \<open>The start of \<open>copyBuffer\<close>: the 32 KiB read buffer. (The client and the backend are
  \<open>io.ReadWriteCloser\<close>s, never an \<open>*io.LimitedReader\<close>, so the size stays 32 KiB.)\<close>

definition copyBuffer_start :: "memory \<Rightarrow> copy_locals \<times> memory" where
  "copyBuffer_start m =
     (case make_bytes (32 * 1024) (32 * 1024) m of
        (b, m1) \<Rightarrow> (\<lparr> buf = b, written = 0, err = None \<rparr>, m1))"

text \<open>\<open>Stream\<close>: the guard and the flag; the caller of the model starts the goroutines.\<close>

definition Stream :: "PersistentPipe \<Rightarrow> error option \<times> PersistentPipe" where
  "Stream pep =
     (if streamOn pep then (Some ErrStreamRunning, pep)
      else if ClientConn pep = None \<or> BackendConn pep = None then (Some ErrNilConn, pep)
      else (None, pep \<lparr> streamOn := True \<rparr>))"

section \<open>The pipe manager (pipemanager.go, current version)\<close>

record WebsocketPipeManager =
  clientPipesMap :: "uuid \<rightharpoonup> uuid"
  backendPool :: BackendWSConnPool
  interruptMemoryLimitPerConnInBytes :: nat

definition NewWebsocketPipeManager :: "BackendWSConnPool \<Rightarrow> nat \<Rightarrow> WebsocketPipeManager" where
  "NewWebsocketPipeManager pool limit =
     \<lparr> clientPipesMap = Map.empty, backendPool = pool,
       interruptMemoryLimitPerConnInBytes = limit \<rparr>"

text \<open>
  A call of \<open>CreatePipe\<close> and the goroutines it starts. The map of the manager stores the
  pipe under the client id (here: the id of the pipe, the pipe itself is the field \<open>pipe\<close>).
  An unbuffered channel holds the value of a sender that waits for its receiver: \<open>pipeChan\<close>
  is the channel made by \<open>Stream\<close> (with the direction of the loop that sends),
  \<open>callerChan\<close> the one made by \<open>CreatePipe\<close>. \<open>result\<close> is the value \<open>CreatePipe\<close> has
  returned, \<open>None\<close> while it is blocked in \<open>return <-errChan\<close>.
\<close>

datatype copier = Running copy_locals | Left copy_locals

datatype listener_state =
    AwaitEvent
  | InListener
  | InGetConn
  | SendingToCaller

record session =
  manager :: WebsocketPipeManager
  pipe :: PersistentPipe
  heap :: memory
  toBackend :: copier
  fromBackend :: copier
  pipeChan :: "(CopyDirection \<times> error) option"
  callerChan :: "error option"
  listener :: listener_state
  result :: "error option option"

text \<open>\<open>CreatePipe\<close> up to its last statement. \<open>GetConn\<close> gets its dialers and clock readings
  from the caller of the model. When \<open>Stream\<close> fails, \<open>errChan <- pipeErr\<close> waits for a
  receiver that is the next statement of the same goroutine.\<close>

datatype create_outcome =
    Rejected error
  | WaitingInGetConn WebsocketPipeManager
  | StuckSending error WebsocketPipeManager
  | Started session

definition CreatePipe_begin ::
  "uuid \<Rightarrow> (dialer \<times> time) list \<Rightarrow> uuid \<Rightarrow> nat option \<Rightarrow>
   WebsocketPipeManager \<Rightarrow> memory \<Rightarrow> create_outcome" where
  "CreatePipe_begin newId dials clientId conn pm m =
     (if clientPipesMap pm clientId \<noteq> None then Rejected (ErrPipeExists clientId)
      else
        (case GetConn dials (backendPool pm) of
           (None, bp1) \<Rightarrow> WaitingInGetConn (pm \<lparr> backendPool := bp1 \<rparr>)
         | (Some backendConn, bp1) \<Rightarrow>
             (case NewPersistentPipe newId clientId conn (Some backendConn)
                     (interruptMemoryLimitPerConnInBytes pm) m of
                (persistentPipe, m1) \<Rightarrow>
                  (let pm1 = pm \<lparr> backendPool := bp1,
                                   clientPipesMap := (clientPipesMap pm)(clientId \<mapsto> newId) \<rparr>
                   in case Stream persistentPipe of
                        (Some pipeErr, pep) \<Rightarrow> StuckSending pipeErr pm1
                      | (None, pep) \<Rightarrow>
                          (case copyBuffer_start m1 of
                             (l1, m2) \<Rightarrow>
                               (case copyBuffer_start m2 of
                                  (l2, m3) \<Rightarrow>
                                    Started \<lparr> manager = pm1, pipe = pep, heap = m3,
                                              toBackend = Running l1, fromBackend = Running l2,
                                              pipeChan = None, callerChan = None,
                                              listener = AwaitEvent, result = None \<rparr>))))))"

text \<open>The steps of the goroutines. A step that its goroutine cannot take leaves the state
  as it is. A pass of a copy loop is one step: it reads \<open>BackendErr\<close> once, and a pass
  that sends on the channel of the pipe is completed, after which its goroutine takes no
  further pass until the listener has received.\<close>

datatype sched =
    PassToBackend io_step
  | PassFromBackend io_step
  | ListenerReceive
  | ListenerPass dialer time
  | CallerReceive
  | PoolStep pool_action

definition first_sent :: "event list \<Rightarrow> error option" where
  "first_sent evs = (case [e. Sent e \<leftarrow> evs] of [] \<Rightarrow> None | e # _ \<Rightarrow> Some e)"

definition copier_pass ::
  "(nat \<Rightarrow> nat \<Rightarrow> nat) \<Rightarrow> CopyDirection \<Rightarrow> io_step \<Rightarrow> copy_locals \<Rightarrow> session \<Rightarrow> copier \<times> session" where
  "copier_pass grow cd io l s =
     (case copyBuffer_iter grow cd io l (pipe s) (heap s) of
        (fl, evs, l1, p1, m1) \<Rightarrow>
          ((case fl of Continue \<Rightarrow> Running l1 | Break \<Rightarrow> Left l1),
           s \<lparr> pipe := p1, heap := m1,
               pipeChan := (case first_sent evs of None \<Rightarrow> pipeChan s | Some e \<Rightarrow> Some (cd, e)) \<rparr>))"

text \<open>The closure \<open>ErrorListener\<close> that \<open>CreatePipe\<close> installs: one step of its \<open>for\<close> loop,
  with \<open>GetConn\<close> taken pass by pass.\<close>

definition ErrorListener_step :: "dialer \<Rightarrow> time \<Rightarrow> session \<Rightarrow> session" where
  "ErrorListener_step d now s =
     (case listener s of
        InListener \<Rightarrow>
          (if BackendErr (pipe s) \<noteq> None
           then (case BackendConn (pipe s) of
                   None \<Rightarrow> s
                 | Some bc \<Rightarrow>
                     s \<lparr> manager := (manager s) \<lparr> backendPool := MarkError now bc (backendPool (manager s)) \<rparr>,
                         listener := InGetConn \<rparr>)
           else
             (case ClientErr (pipe s) of
                Some ce \<Rightarrow> s \<lparr> callerChan := Some (ErrClientErrored ce), listener := SendingToCaller \<rparr>
              | None \<Rightarrow> s))
      | InGetConn \<Rightarrow>
          (case GetConn_iter d now (backendPool (manager s)) of
             (None, bp1) \<Rightarrow> s \<lparr> manager := (manager s) \<lparr> backendPool := bp1 \<rparr> \<rparr>
           | (Some backendConn, bp1) \<Rightarrow>
               s \<lparr> manager := (manager s) \<lparr> backendPool := bp1 \<rparr>,
                   pipe := (pipe s) \<lparr> BackendConn := Some backendConn, BackendErr := None \<rparr>,
                   listener := AwaitEvent \<rparr>)
      | _ \<Rightarrow> s)"

definition session_step :: "(nat \<Rightarrow> nat \<Rightarrow> nat) \<Rightarrow> sched \<Rightarrow> session \<Rightarrow> session" where
  "session_step grow a s =
     (case a of
        PassToBackend io \<Rightarrow>
          (case toBackend s of
             Running l \<Rightarrow>
               (if (case pipeChan s of Some (CopyToBackend, _) \<Rightarrow> True | _ \<Rightarrow> False) then s
                else (case copier_pass grow CopyToBackend io l s of
                        (c, s1) \<Rightarrow> s1 \<lparr> toBackend := c \<rparr>))
           | Left l \<Rightarrow> s)
      | PassFromBackend io \<Rightarrow>
          (case fromBackend s of
             Running l \<Rightarrow>
               (if (case pipeChan s of Some (CopyFromBacked, _) \<Rightarrow> True | _ \<Rightarrow> False) then s
                else (case copier_pass grow CopyFromBacked io l s of
                        (c, s1) \<Rightarrow> s1 \<lparr> fromBackend := c \<rparr>))
           | Left l \<Rightarrow> s)
      | ListenerReceive \<Rightarrow>
          (if listener s = AwaitEvent \<and> pipeChan s \<noteq> None
           then s \<lparr> pipeChan := None, pipe := (pipe s) \<lparr> streamOn := False \<rparr>, listener := InListener \<rparr>
           else s)
      | ListenerPass d now \<Rightarrow> ErrorListener_step d now s
      | CallerReceive \<Rightarrow>
          (case callerChan s of
             None \<Rightarrow> s
           | Some e \<Rightarrow>
               (if result s = None
                then s \<lparr> result := Some (Some e), callerChan := None,
                         listener := (if listener s = SendingToCaller then AwaitEvent else listener s) \<rparr>
                else s))
      | PoolStep pa \<Rightarrow>
          s \<lparr> manager := (manager s) \<lparr> backendPool := pool_step pa (backendPool (manager s)) \<rparr> \<rparr>)"

fun session_run :: "(nat \<Rightarrow> nat \<Rightarrow> nat) \<Rightarrow> sched list \<Rightarrow> session \<Rightarrow> session" where
  "session_run grow [] s = s"
| "session_run grow (a # as) s = session_run grow as (session_step grow a s)"

subsection \<open>Concrete surroundings for the worked runs\<close>

text \<open>A dialer whose calls all succeed, the runtime's growth rule taken as doubling (at
  least the needed length), and the empty memory.\<close>

definition upDialer :: dialer where
  "upDialer = \<lparr> url_Parse = (\<lambda>u. Inr ''host''), websocket_Dial = (\<lambda>u h. Inr 7) \<rparr>"

definition growDouble :: "nat \<Rightarrow> nat \<Rightarrow> nat" where
  "growDouble old need = max need (2 * old)"

definition emptyMemory :: memory where
  "emptyMemory = \<lparr> arrays = (\<lambda>_. []), fresh = 0 \<rparr>"

text \<open>The run of the test \<open>ShouldRemoveConnectionIfReachedMaxErrorCount\<close> (pool made with
  \<open>NewBackendConnPool 5 2\<close>), up to the second \<open>MarkError\<close>.\<close>

definition evictionRun :: "pool_action list" where
  "evictionRun = [CallAddToPool ''ws://localhost:8083'', PassFiller, PassGetConn upDialer 1,
     CallMarkError 2 0, PassRefresher, PassGetConn upDialer 3, CallMarkError 4 0]"

text \<open>The bytes a backend has accepted: of every \<open>Write\<close> call, the first \<open>n\<close> bytes of its
  argument, where \<open>n\<close> is the count the call answered.\<close>

definition delivered :: "event list \<Rightarrow> byte list" where
  "delivered evs = concat (map (\<lambda>e. case e of Wrote cd d n ew \<Rightarrow> (if 0 \<le> n \<and> n \<le> int (length d) then take (nat n) d else []) | Sent x \<Rightarrow> []) evs)"

text \<open>A pipe as \<open>NewPersistentPipe\<close> makes it, in the empty memory.\<close>

definition freshPipe :: "nat \<Rightarrow> PersistentPipe \<times> memory" where
  "freshPipe limit = NewPersistentPipe 1 9 (Some 0) (Some 0) limit emptyMemory"

text \<open>The client sends three bytes while the write to the backend fails, then two bytes
  while the write succeeds, then closes.\<close>

definition lostRun :: "io_step list" where
  "lostRun = [\<lparr> rd_bytes = [1, 2, 3], rd_err = None, wr_n = 0, wr_err = Some (Failure 1) \<rparr>,
              \<lparr> rd_bytes = [4, 5], rd_err = None, wr_n = 3, wr_err = None \<rparr>,
              \<lparr> rd_bytes = [], rd_err = Some EOF, wr_n = 0, wr_err = None \<rparr>]"

text \<open>The client sends 17 bytes and the write to the backend fails.\<close>

definition failedWrite17 :: io_step where
  "failedWrite17 = \<lparr> rd_bytes = replicate 17 65, rd_err = None, wr_n = 0, wr_err = Some (Failure 1) \<rparr>"

text \<open>\<open>CreatePipe\<close> stays blocked in a state where no client error is recorded, nothing is
  offered on its channel and the listener is not sending to it.\<close>

definition caller_waits :: "session \<Rightarrow> bool" where
  "caller_waits s \<longleftrightarrow>
     ClientErr (pipe s) = None \<and> callerChan s = None \<and> result s = None \<and>
     listener s \<noteq> SendingToCaller"

text \<open>A manager over a pool with the one backend \<open>ws://b1\<close> on the idle queue; a read that
  ends the client stream; a read that fails on the backend; 17 bytes from the client.\<close>

definition managerWith :: "nat \<Rightarrow> WebsocketPipeManager" where
  "managerWith limit =
     NewWebsocketPipeManager
       (pool_run [CallAddToPool ''ws://b1'', PassFiller] (NewBackendConnPool 5 100)) limit"

definition eofRead :: io_step where
  "eofRead = \<lparr> rd_bytes = [], rd_err = Some EOF, wr_n = 0, wr_err = None \<rparr>"

definition backendDown :: io_step where
  "backendDown = \<lparr> rd_bytes = [], rd_err = Some (Failure 1), wr_n = 0, wr_err = None \<rparr>"

definition seventeenBytes :: io_step where
  "seventeenBytes = \<lparr> rd_bytes = replicate 17 65, rd_err = None, wr_n = 0, wr_err = None \<rparr>"

section \<open>Properties of the pool\<close>

subsection \<open>The invariant is kept by every step taken under the discipline\<close>

lemma urlsOf_simps [simp]:
  "urlsOf f [] = []" "urlsOf f (c # cs) = connUrl (f c) # urlsOf f cs"
  "urlsOf f (cs @ ds) = urlsOf f cs @ urlsOf f ds"
  by (simp_all add: urlsOf_def)

lemma urlsOf_upd_other [simp]: "r \<notin> set cs \<Longrightarrow> urlsOf (f(r := x)) cs = urlsOf f cs"
  by (simp add: urlsOf_def)

lemma urlsOf_upd_same_url: "connUrl x = connUrl (f r) \<Longrightarrow> urlsOf (f(r := x)) cs = urlsOf f cs"
  by (simp add: urlsOf_def)

lemma distinct_count_le1: "distinct xs \<Longrightarrow> count_list xs x \<le> Suc 0"
  by (induction xs) auto

lemma pool_invD:
  assumes "pool_inv bp"
  shows "distinct (locs bp)"
    and "c \<in> set (idleConnections bp) \<Longrightarrow> c < nextRef bp"
    and "c \<in> set (erroredConnections bp) \<Longrightarrow> c < nextRef bp"
    and "inUseMap bp u = Some c \<Longrightarrow> connUrl (conns bp c) = u"
    and "inUseMap bp u = Some c \<Longrightarrow> c < nextRef bp"
    and "inUseMap bp u = Some c \<Longrightarrow> u \<notin> set (locs bp)"
    and "inUseMap bp u = Some c \<Longrightarrow> registeredBackendUrls bp u \<noteq> None"
    and "u \<in> set (locs bp) \<Longrightarrow> registeredBackendUrls bp u \<noteq> None"
  using assms unfolding pool_inv_def by blast+

lemma pool_inv_entries: 
  assumes inv: "pool_inv bp" shows "entriesFor bp u \<le> 1"
proof -
  have "distinct (locs bp)" using inv by (simp add: pool_inv_def)
  then have d: "count_list (locs bp) u \<le> Suc 0" by (rule distinct_count_le1)
  show ?thesis
  proof (cases "inUseMap bp u")
    case None
    then show ?thesis using d by (simp add: entriesFor_def locs_def)
  next
    case (Some c)
    then have "u \<notin> set (locs bp)" using inv by (simp add: pool_inv_def)
    then have "count_list (locs bp) u = 0" by simp
    then show ?thesis using Some by (simp add: entriesFor_def locs_def)
  qed
qed

lemma pool_inv_New: "pool_inv (NewBackendConnPool mi me)"
  by (simp add: pool_inv_def locs_def NewBackendConnPool_def)

lemma pool_inv_AddToPool: 
  assumes inv: "pool_inv bp" shows "pool_inv (snd (AddToPool url bp))"
proof (cases "registeredBackendUrls bp url")
  case (Some b)
  then show ?thesis using inv by (simp add: AddToPool_def)
next
  case None
  let ?bp = "snd (AddToPool url bp)"
  have a: "url \<notin> set (locs bp)" using pool_invD(8)[OF inv] None by blast
  have b: "inUseMap bp url = None"
  proof (cases "inUseMap bp url")
    case (Some c)
    then show ?thesis using pool_invD(7)[OF inv Some] None by simp
  qed simp
  have f: "availableBackendUrls ?bp = availableBackendUrls bp @ [url]"
     "registeredBackendUrls ?bp = (registeredBackendUrls bp)(url \<mapsto> True)"
     "inUseMap ?bp = inUseMap bp" "idleConnections ?bp = idleConnections bp"
     "erroredConnections ?bp = erroredConnections bp" "conns ?bp = conns bp" "nextRef ?bp = nextRef bp"
    using None by (simp_all add: AddToPool_def)
  have s: "set (locs ?bp) = insert url (set (locs bp))"
    by (auto simp: locs_def f)
  have d: "distinct (locs ?bp)"
    using pool_invD(1)[OF inv] a by (auto simp: locs_def f)
  show ?thesis
    unfolding pool_inv_def s
    using d pool_invD(2-8)[OF inv] b by (auto simp: f)
qed

lemma pool_inv_Filler:
  assumes inv: "pool_inv bp" shows "pool_inv (idleConnectionFiller_iter bp)"
proof (cases "sint (idleConnCount bp) > sint (maxIdleConnections bp) \<or> availableBackendUrls bp = []")
  case True
  then show ?thesis using inv by (auto simp: idleConnectionFiller_iter_def)
next
  case False
  then obtain front rest where fr: "availableBackendUrls bp = front # rest" by (cases "availableBackendUrls bp") auto
  let ?bp = "idleConnectionFiller_iter bp"
  have ni: "nextRef bp \<notin> set (idleConnections bp)" using pool_invD(2)[OF inv] by blast
  have ne: "nextRef bp \<notin> set (erroredConnections bp)" using pool_invD(3)[OF inv] by blast
  have f: "availableBackendUrls ?bp = rest"
     "registeredBackendUrls ?bp = registeredBackendUrls bp"
     "inUseMap ?bp = inUseMap bp" "idleConnections ?bp = idleConnections bp @ [nextRef bp]"
     "erroredConnections ?bp = erroredConnections bp" "nextRef ?bp = Suc (nextRef bp)"
     "conns ?bp = (conns bp)(nextRef bp := \<lparr> Conn = None, connUrl = front, lastCheckedTime = None, errorCount = 0 \<rparr>)"
    using False fr by (simp_all add: idleConnectionFiller_iter_def)
  have l: "locs ?bp = rest @ urlsOf (conns bp) (idleConnections bp) @ [front] @ urlsOf (conns bp) (erroredConnections bp)"
    using ni ne by (simp add: locs_def f)
  have s: "set (locs ?bp) = set (locs bp)"
    unfolding l by (auto simp: locs_def fr)
  have d: "distinct (locs ?bp)"
    unfolding l using pool_invD(1)[OF inv] by (auto simp: locs_def fr)
  have u: "\<And>u c. inUseMap bp u = Some c \<Longrightarrow> c \<noteq> nextRef bp" using pool_invD(5)[OF inv] by blast
  show ?thesis
    unfolding pool_inv_def s
    using d pool_invD(2-8)[OF inv] u by (auto simp: f less_Suc_eq)
qed

lemma pool_inv_Refresher:
  assumes inv: "pool_inv bp" shows "pool_inv (erroredConnectionRefresher_iter bp)"
proof (cases "erroredConnections bp")
  case Nil
  then show ?thesis using inv by (simp add: erroredConnectionRefresher_iter_def)
next
  case (Cons front rest)
  let ?bp = "erroredConnectionRefresher_iter bp"
  show ?thesis
  proof (cases "sint (errorCount (conns bp front)) < sint (maxAllowedErrorCount bp)")
    case True
    have f: "availableBackendUrls ?bp = availableBackendUrls bp"
     "registeredBackendUrls ?bp = registeredBackendUrls bp"
     "inUseMap ?bp = inUseMap bp" "idleConnections ?bp = idleConnections bp @ [front]"
     "erroredConnections ?bp = rest" "nextRef ?bp = nextRef bp"
     "conns ?bp = (conns bp)(front := (conns bp front) \<lparr> Conn := None \<rparr>)"
      using True Cons by (simp_all add: erroredConnectionRefresher_iter_def Let_def)
    have l: "locs ?bp = availableBackendUrls bp @ urlsOf (conns bp) (idleConnections bp) @ [connUrl (conns bp front)]
        @ urlsOf (conns bp) rest"
      by (simp add: locs_def f urlsOf_upd_same_url)
    have s: "set (locs ?bp) = set (locs bp)"
      unfolding l by (auto simp: locs_def Cons)
    have d: "distinct (locs ?bp)"
      unfolding l using pool_invD(1)[OF inv] by (auto simp: locs_def Cons)
    show ?thesis
      unfolding pool_inv_def s
      using d pool_invD(2-8)[OF inv] by (auto simp: f Cons)
  next
    case False
    have f: "availableBackendUrls ?bp = availableBackendUrls bp"
     "registeredBackendUrls ?bp = registeredBackendUrls bp"
     "inUseMap ?bp = inUseMap bp" "idleConnections ?bp = idleConnections bp"
     "erroredConnections ?bp = rest" "nextRef ?bp = nextRef bp"
     "conns ?bp = conns bp"
      using False Cons by (simp_all add: erroredConnectionRefresher_iter_def Let_def)
    have l: "locs ?bp = availableBackendUrls bp @ urlsOf (conns bp) (idleConnections bp) @ urlsOf (conns bp) rest"
      by (simp add: locs_def f)
    have s: "set (locs ?bp) \<subseteq> set (locs bp)"
      unfolding l by (auto simp: locs_def Cons)
    have d: "distinct (locs ?bp)"
      unfolding l using pool_invD(1)[OF inv] by (auto simp: locs_def Cons)
    show ?thesis
      unfolding pool_inv_def
      using d pool_invD(2-8)[OF inv] s by (auto simp: f Cons)
  qed
qed

lemma pool_inv_MarkError:
  assumes inv: "pool_inv bp" and use: "inUseMap bp (connUrl (conns bp c)) = Some c"
  shows "pool_inv (MarkError now c bp)"
proof -
  let ?bp = "MarkError now c bp"
  let ?u = "connUrl (conns bp c)"
  have f: "availableBackendUrls ?bp = availableBackendUrls bp"
     "registeredBackendUrls ?bp = registeredBackendUrls bp"
     "inUseMap ?bp = (inUseMap bp)(?u := None)" "idleConnections ?bp = idleConnections bp"
     "erroredConnections ?bp = erroredConnections bp @ [c]" "nextRef ?bp = nextRef bp"
     "conns ?bp = (conns bp)(c := (conns bp c) \<lparr> lastCheckedTime := Some now, errorCount := errorCount (conns bp c) + 1 \<rparr>)"
    by (simp_all add: MarkError_def Let_def)
  have l: "locs ?bp = locs bp @ [?u]"
    by (simp add: locs_def f urlsOf_upd_same_url)
  have d: "distinct (locs ?bp)"
    unfolding l using pool_invD(1)[OF inv] pool_invD(6)[OF inv use] by simp
  show ?thesis
    unfolding pool_inv_def l
    using d[unfolded l] pool_invD(2-8)[OF inv] pool_invD(5,7)[OF inv use] by (auto simp: f)
qed


lemma pool_inv_dial_failed:
  assumes inv: "pool_inv bp" and idle: "idleConnections bp = c # cs"
  shows "pool_inv (MarkError now c (bp \<lparr> idleConnections := cs \<rparr>))"
proof -
  let ?bp = "MarkError now c (bp \<lparr> idleConnections := cs \<rparr>)"
  let ?u = "connUrl (conns bp c)"
  have uin: "?u \<in> set (locs bp)" by (simp add: locs_def idle)
  have nouse: "inUseMap bp ?u = None"
  proof (cases "inUseMap bp ?u")
    case (Some c')
    then show ?thesis using pool_invD(6)[OF inv Some] uin by simp
  qed simp
  have f: "availableBackendUrls ?bp = availableBackendUrls bp"
     "registeredBackendUrls ?bp = registeredBackendUrls bp"
     "inUseMap ?bp = inUseMap bp" "idleConnections ?bp = cs"
     "erroredConnections ?bp = erroredConnections bp @ [c]" "nextRef ?bp = nextRef bp"
     "conns ?bp = (conns bp)(c := (conns bp c) \<lparr> lastCheckedTime := Some now, errorCount := errorCount (conns bp c) + 1 \<rparr>)"
    using nouse by (simp_all add: MarkError_def Let_def fun_upd_idem)
  have l: "locs ?bp = availableBackendUrls bp @ urlsOf (conns bp) cs @ urlsOf (conns bp) (erroredConnections bp) @ [?u]"
    by (simp add: locs_def f urlsOf_upd_same_url)
  have s: "set (locs ?bp) = set (locs bp)"
    unfolding l by (auto simp: locs_def idle)
  have d: "distinct (locs ?bp)"
    unfolding l using pool_invD(1)[OF inv] by (auto simp: locs_def idle)
  show ?thesis
    unfolding pool_inv_def s
    using d pool_invD(2-8)[OF inv] by (auto simp: f idle)
qed

lemma pool_inv_handOut:
  assumes inv: "pool_inv bp" and idle: "idleConnections bp = c # cs"
    and x: "connUrl x = connUrl (conns bp c)"
  shows "pool_inv (snd (handOut c (bp \<lparr> idleConnections := cs, conns := (conns bp)(c := x) \<rparr>)))"
proof -
  let ?bp = "snd (handOut c (bp \<lparr> idleConnections := cs, conns := (conns bp)(c := x) \<rparr>))"
  let ?u = "connUrl (conns bp c)"
  have uin: "?u \<in> set (locs bp)" by (simp add: locs_def idle)
  have f: "availableBackendUrls ?bp = availableBackendUrls bp"
     "registeredBackendUrls ?bp = registeredBackendUrls bp"
     "inUseMap ?bp = (inUseMap bp)(?u \<mapsto> c)" "idleConnections ?bp = cs"
     "erroredConnections ?bp = erroredConnections bp" "nextRef ?bp = nextRef bp"
     "conns ?bp = (conns bp)(c := x)"
    using x by (simp_all add: handOut_def)
  have l: "locs ?bp = availableBackendUrls bp @ urlsOf (conns bp) cs @ urlsOf (conns bp) (erroredConnections bp)"
    by (simp add: locs_def f urlsOf_upd_same_url x)
  have s: "set (locs ?bp) \<subseteq> set (locs bp)"
    unfolding l by (auto simp: locs_def idle)
  have d: "distinct (locs ?bp)" "?u \<notin> set (locs ?bp)"
    unfolding l using pool_invD(1)[OF inv] by (auto simp: locs_def idle)
  have cn: "c < nextRef bp" using pool_invD(2)[OF inv] idle by simp
  have other: "\<And>u c'. inUseMap bp u = Some c' \<Longrightarrow> c' \<noteq> c"
    using pool_invD(4,6)[OF inv] uin by blast
  show ?thesis
    unfolding pool_inv_def
    using d pool_invD(2-8)[OF inv] s cn uin other x by (auto simp: f idle)
qed

lemma pool_inv_GetConn_iter:
  assumes inv: "pool_inv bp" shows "pool_inv (snd (GetConn_iter d now bp))"
proof (cases "idleConnections bp")
  case Nil
  then show ?thesis using inv by (simp add: GetConn_iter_def tryAndFetchConnectionFromIdleList_def)
next
  case (Cons c cs)
  have same: "bp \<lparr> idleConnections := cs \<rparr> = bp \<lparr> idleConnections := cs, conns := (conns bp)(c := conns bp c) \<rparr>"
    by simp
  show ?thesis
  proof (cases "Conn (conns bp c)")
    case (Some nc)
    then show ?thesis
      using pool_inv_handOut[OF inv Cons, of "conns bp c"] Cons 
      by (simp add: GetConn_iter_def tryAndFetchConnectionFromIdleList_def)
  next
    case None
    show ?thesis
    proof (cases "newConn d (connUrl (conns bp c))")
      case (Inl e)
      then show ?thesis using pool_inv_dial_failed[OF inv Cons] None Cons
        by (simp add: GetConn_iter_def tryAndFetchConnectionFromIdleList_def)
    next
      case (Inr netConn)
      then show ?thesis
        using pool_inv_handOut[OF inv Cons, of "(conns bp c) \<lparr> Conn := Some netConn \<rparr>"] None Cons
        by (simp add: GetConn_iter_def tryAndFetchConnectionFromIdleList_def)
    qed
  qed
qed

lemma pool_inv_run:
  "pool_inv bp \<Longrightarrow> in_use_args acts bp \<Longrightarrow> pool_inv (pool_run acts bp)"
proof (induction acts arbitrary: bp)
  case Nil
  then show ?case by simp
next
  case (Cons a acts)
  show ?case
  proof (cases a)
    case (CallAddToPool u)
    then show ?thesis using Cons pool_inv_AddToPool by simp
  next
    case (PassGetConn d now)
    then show ?thesis using Cons pool_inv_GetConn_iter by simp
  next
    case (CallMarkError now c)
    then show ?thesis using Cons pool_inv_MarkError by simp
  next
    case PassFiller
    then show ?thesis using Cons pool_inv_Filler by simp
  next
    case PassRefresher
    then show ?thesis using Cons pool_inv_Refresher by simp
  qed
qed

subsection \<open>Registration is never undone\<close>










lemmas pool_defs = NewBackendConnPool_def AddToPool_def MarkError_def
  tryAndFetchConnectionFromIdleList_def newConn_def handOut_def GetConn_iter_def
  idleConnectionFiller_iter_def erroredConnectionRefresher_iter_def upDialer_def Let_def

subsection \<open>Claims about the pool\<close>

lemma AddToPool_statements:
  "AddToPool url bp =
     (if AddToPool_Load url bp then (Some (ErrAlreadyRegistered url), bp)
      else (None, AddToPool_Store url (AddToPool_PushBack url bp)))"
  by (simp add: AddToPool_def AddToPool_Load_def AddToPool_Store_def AddToPool_PushBack_def)

text \<open>C6 says that in every state the pool reaches, under every interleaving of its
  operations, a URL has at most one entry over the available queue, the idle queue, the
  in-use map and the errored queue. The pool is meant to keep it (its header: at most one
  client connection per backend; \<open>registeredBackendUrls\<close> is there to de-duplicate), but
  twice it does not. First run: two calls of \<open>AddToPool\<close> for one URL overlap; both look the
  URL up before either stores it, both append it, and after two passes of the filler and
  two of \<open>GetConn\<close> two handles with live connections exist for the one backend. Second
  run: \<open>MarkError\<close> is called twice on one handle and the errored queue holds it twice.\<close>

theorem url_entered_twice:
  "(let bp0 = NewBackendConnPool 5 100;
        foundA = AddToPool_Load ''ws://b1'' bp0;
        foundB = AddToPool_Load ''ws://b1'' bp0;
        bp1 = AddToPool_Store ''ws://b1'' (AddToPool_PushBack ''ws://b1'' bp0);
        bp2 = AddToPool_Store ''ws://b1'' (AddToPool_PushBack ''ws://b1'' bp1);
        bp3 = pool_run [PassFiller, PassFiller, PassGetConn upDialer 1, PassGetConn upDialer 2] bp2
    in \<not> foundA \<and> \<not> foundB \<and>
       availableBackendUrls bp2 = [''ws://b1'', ''ws://b1''] \<and>
       entriesFor bp2 ''ws://b1'' = 2 \<and>
       connUrl (conns bp3 0) = ''ws://b1'' \<and> connUrl (conns bp3 1) = ''ws://b1'' \<and>
       Conn (conns bp3 0) = Some 7 \<and> Conn (conns bp3 1) = Some 7 \<and>
       inUseMap bp3 ''ws://b1'' = Some 1) \<and>
   entriesFor (pool_run [CallAddToPool ''ws://b1'', PassFiller, PassGetConn upDialer 1,
        CallMarkError 2 0, CallMarkError 3 0] (NewBackendConnPool 5 100)) ''ws://b1'' = 2"
  by (simp add: pool_defs entriesFor_def urlsOf_def AddToPool_Load_def AddToPool_Store_def
        AddToPool_PushBack_def)

text \<open>With whole calls and passes as steps, and \<open>MarkError\<close> only called on a handle that is
  in the in-use map at that moment, no URL gets a second entry.\<close>

lemma one_entry_per_url:
  "in_use_args acts (NewBackendConnPool mi me) \<Longrightarrow>
   entriesFor (pool_run acts (NewBackendConnPool mi me)) u \<le> 1"
  by (rule pool_inv_entries) (rule pool_inv_run [OF pool_inv_New])

text \<open>C7, as stated: \<open>MarkError\<close> on an entry that is already in the errored queue changes
  nothing. In the code the second call counts, stamps and queues again.\<close>

theorem second_MarkError_not_ignored:
  "(let bp = pool_run [CallAddToPool ''ws://b1'', PassFiller, PassGetConn upDialer 1,
                CallMarkError 2 0] (NewBackendConnPool 5 100);
        bp' = MarkError 9 0 bp
    in 0 \<in> set (erroredConnections bp) \<and>
       errorCount (conns bp 0) = 1 \<and> errorCount (conns bp' 0) = 2 \<and>
       lastCheckedTime (conns bp 0) = Some 2 \<and> lastCheckedTime (conns bp' 0) = Some 9 \<and>
       erroredConnections bp = [0] \<and> erroredConnections bp' = [0, 0])"
  by (simp add: pool_defs)

text \<open>C7, as amended: every call of \<open>MarkError\<close>, whether or not the entry is already in the
  errored queue, adds one to \<open>errorCount\<close>, sets \<open>lastCheckedTime\<close> to the time of the call
  and appends the entry to the errored queue.\<close>

theorem MarkError_every_call_counts:
  "errorCount (conns (MarkError now c bp) c) = errorCount (conns bp c) + 1 \<and>
   lastCheckedTime (conns (MarkError now c bp) c) = Some now \<and>
   erroredConnections (MarkError now c bp) = erroredConnections bp @ [c]"
  by (simp add: MarkError_def Let_def)









text \<open>C10: a pass of the refresher leaves \<open>idleConnCount\<close> as it is, also when it puts an
  entry back on the idle queue, and every hand-out of \<open>GetConn\<close> takes one off; so the count
  is not the length of the idle queue and goes below zero. With one registered URL and
  \<open>maxAllowedErrorCount = 2\<close>: after the first recycling the idle queue holds one entry and
  the count is 0; after two hand-outs, each followed by \<open>MarkError\<close>, and the drop of the
  entry, all queues are empty and the count is -1.\<close>

theorem idleConnCount_drifts_below_zero:
  "idleConnCount (erroredConnectionRefresher_iter bp) = idleConnCount bp \<and>
   (case GetConn_iter d now bp of
      (Some c, bp') \<Rightarrow> idleConnCount bp' = idleConnCount bp - 1
    | (None, bp') \<Rightarrow> idleConnCount bp' = idleConnCount bp) \<and>
   (let bp1 = pool_run (take 5 evictionRun) (NewBackendConnPool 5 2)
    in length (idleConnections bp1) = 1 \<and> sint (idleConnCount bp1) = 0) \<and>
   (let bp2 = pool_run (evictionRun @ [PassRefresher]) (NewBackendConnPool 5 2)
    in sint (idleConnCount bp2) = - 1 \<and> idleConnections bp2 = [] \<and> erroredConnections bp2 = [] \<and>
       availableBackendUrls bp2 = [] \<and> inUseMap bp2 ''ws://localhost:8083'' = None)"
proof -
  have 1: "idleConnCount (erroredConnectionRefresher_iter bp) = idleConnCount bp"
    by (simp add: erroredConnectionRefresher_iter_def Let_def split: list.splits)
  have 2: "(case GetConn_iter d now bp of
      (Some c, bp') \<Rightarrow> idleConnCount bp' = idleConnCount bp - 1
    | (None, bp') \<Rightarrow> idleConnCount bp' = idleConnCount bp)"
    by (simp add: GetConn_iter_def tryAndFetchConnectionFromIdleList_def handOut_def MarkError_def Let_def
        split: list.splits option.splits sum.splits)
  have 3: "(let bp1 = pool_run (take 5 evictionRun) (NewBackendConnPool 5 2)
    in length (idleConnections bp1) = 1 \<and> sint (idleConnCount bp1) = 0)"
    by (simp add: evictionRun_def pool_defs)
  have 4: "(let bp2 = pool_run (evictionRun @ [PassRefresher]) (NewBackendConnPool 5 2)
    in sint (idleConnCount bp2) = - 1 \<and> idleConnections bp2 = [] \<and> erroredConnections bp2 = [] \<and>
       availableBackendUrls bp2 = [] \<and> inUseMap bp2 ''ws://localhost:8083'' = None)"
    by (simp add: evictionRun_def pool_defs)
  show ?thesis using 1 2 3 4 by blast
qed

section \<open>Properties of the copy loop and of the pipe manager\<close>

lemmas mem_defs = make_bytes_def bytes_of_def reslice_def store_bytes_def append_bytes_def
  emptyMemory_def growDouble_def
lemmas copy_defs = freshPipe_def NewPersistentPipe_def stream_Read_def after_read_def keep_for_later_def
  write_and_after_def copyBuffer_iter_def copyBuffer_start_def Let_def

lemmas session_defs = managerWith_def NewWebsocketPipeManager_def CreatePipe_begin_def Stream_def
  session_step_def copier_pass_def first_sent_def ErrorListener_step_def eofRead_def backendDown_def
  seventeenBytes_def

subsection \<open>Nothing sets the client error, nothing sends to the caller\<close>

lemma after_read_ClientErr:
  "after_read cd e evs l p m = (fl, evs', l', p', m') \<Longrightarrow> ClientErr p' = ClientErr p"
  by (auto simp: after_read_def Let_def split: option.splits if_splits)

lemma keep_for_later_ClientErr:
  "keep_for_later g nr l p m = (p', m') \<Longrightarrow> ClientErr p' = ClientErr p"
  by (auto simp: keep_for_later_def split: prod.splits)

lemma write_and_after_ClientErr:
  "write_and_after g cd io e nr l p m = (fl, evs', l', p', m') \<Longrightarrow> ClientErr p' = ClientErr p"
  unfolding write_and_after_def Let_def
  by (auto split: option.splits if_splits prod.splits dest!: keep_for_later_ClientErr after_read_ClientErr)

lemma copyBuffer_iter_ClientErr:
  "copyBuffer_iter g cd io l p m = (fl, evs, l', p', m') \<Longrightarrow> ClientErr p' = ClientErr p"
  unfolding copyBuffer_iter_def
  by (auto split: option.splits if_splits prod.splits dest!: write_and_after_ClientErr after_read_ClientErr)


lemma copier_pass_keeps:
  "copier_pass g cd io l s = (c, s1) \<Longrightarrow>
     ClientErr (pipe s1) = ClientErr (pipe s) \<and> callerChan s1 = callerChan s \<and>
     result s1 = result s \<and> listener s1 = listener s \<and> manager s1 = manager s"
  unfolding copier_pass_def
  by (auto split: prod.splits dest: copyBuffer_iter_ClientErr)

lemma ErrorListener_step_waits:
  "caller_waits s \<Longrightarrow> caller_waits (ErrorListener_step d now s)"
  unfolding caller_waits_def ErrorListener_step_def
  by (auto split: listener_state.splits option.splits prod.splits)

lemma session_step_waits:
  assumes "caller_waits s" shows "caller_waits (session_step g a s)"
proof (cases a)
  case (PassToBackend io)
  then show ?thesis using assms
    by (auto simp: session_step_def caller_waits_def split: copier.splits prod.splits dest: copier_pass_keeps)
next
  case (PassFromBackend io)
  then show ?thesis using assms
    by (auto simp: session_step_def caller_waits_def split: copier.splits prod.splits dest: copier_pass_keeps)
next
  case ListenerReceive
  then show ?thesis using assms by (auto simp: session_step_def caller_waits_def)
next
  case (ListenerPass d now)
  then show ?thesis using assms ErrorListener_step_waits by (simp add: session_step_def)
next
  case CallerReceive
  then show ?thesis using assms by (auto simp: session_step_def caller_waits_def)
next
  case (PoolStep pa)
  then show ?thesis using assms by (auto simp: session_step_def caller_waits_def)
qed

lemma session_run_waits:
  "caller_waits s \<Longrightarrow> caller_waits (session_run g sched s)"
  by (induction sched arbitrary: s) (simp_all add: session_step_waits)

lemma Started_waits:
  "CreatePipe_begin newId dials clientId conn pm m = Started s \<Longrightarrow> caller_waits s"
  unfolding CreatePipe_begin_def NewPersistentPipe_def Stream_def caller_waits_def Let_def
  by (auto split: if_splits prod.splits option.splits)



subsection \<open>Claims about the copy loop\<close>

text \<open>C1 says that a pass which reads bytes \<open>b\<close> while \<open>BackendErr\<close> is nil and the staging
  buffer is not empty writes the buffer followed by \<open>b\<close> in one call, so that every byte read
  is delivered once and in order. The code builds the concatenation but then sets \<open>nr\<close> to
  the length of the staging buffer: the call gets the buffered bytes only, and after its
  success the buffer is emptied. In the run below (limit 16) the client sends 1 2 3 while
  the write fails, then 4 5 while it succeeds, then closes: the second call writes 1 2 3,
  the backend has accepted 1 2 3, the loop has left, the buffer is empty, and 4 5 were never
  written.\<close>

theorem flush_drops_new_bytes:
  "(case freshPipe 16 of (p, m) \<Rightarrow>
      case copyBuffer_start m of (l, m1) \<Rightarrow>
        case copyBuffer_loop growDouble CopyToBackend lostRun l p m1 of
          (left, evs, l2, p2, m2) \<Rightarrow>
            left \<and>
            evs = [Wrote CopyToBackend [1, 2, 3] 0 (Some (Failure 1)),
                   Wrote CopyToBackend [1, 2, 3] 3 None] \<and>
            delivered evs = [1, 2, 3] \<and>
            concat (map rd_bytes lostRun) = [1, 2, 3, 4, 5] \<and>
            bytes_of m2 (backendBuffer p2) = [] \<and> BackendErr p2 = None)"
  by (simp add: lostRun_def copy_defs mem_defs delivered_def)

text \<open>The append made while the backend is absent is guarded: such a pass keeps the
  staging buffer within the limit and writes nothing.\<close>

lemma append_bytes_len:
  "append_bytes g s xs m = (s', m') \<Longrightarrow> len s' = len s + length xs"
  by (auto simp: append_bytes_def Let_def split: if_splits)

lemma absent_backend_pass_keeps_limit:
  assumes "BackendErr p \<noteq> None"
    and "len (backendBuffer p) \<le> bufferByteLimit p"
    and "copyBuffer_iter g CopyToBackend io l p m = (fl, evs, l', p', m')"
  shows "len (backendBuffer p') \<le> bufferByteLimit p' \<and> evs = []"
  using assms
  unfolding copyBuffer_iter_def stream_Read_def Let_def after_read_def
  by (auto simp: reslice_def bytes_of_def split: if_splits prod.splits option.splits dest!: append_bytes_len)

text \<open>C2 says that the staging buffer never holds more than \<open>bufferByteLimit\<close> bytes, also
  after the append that follows a failed write to the backend. That append has no check:
  with limit 16, 17 bytes read and a failed write leave 17 bytes in the buffer.\<close>

theorem failed_write_exceeds_limit:
  "(case freshPipe 16 of (p, m) \<Rightarrow>
      case copyBuffer_start m of (l, m1) \<Rightarrow>
        case copyBuffer_iter growDouble CopyToBackend failedWrite17 l p m1 of
          (fl, evs, l2, p2, m2) \<Rightarrow>
            fl = Continue \<and> BackendErr p2 = None \<and>
            bufferByteLimit p2 = 16 \<and> len (backendBuffer p2) = 17 \<and>
            bytes_of m2 (backendBuffer p2) = replicate 17 65)"
  by (simp add: failedWrite17_def copy_defs mem_defs)

subsection \<open>Claims about \<open>CreatePipe\<close>\<close>

text \<open>C3 says that after a clean end of the client stream the forward loop ends cleanly and
  \<open>CreatePipe\<close> returns nil. In the code the forward loop ends with no error, but it tells
  nobody: for every schedule of the other goroutines after it, \<open>CreatePipe\<close> has not
  returned.\<close>

theorem eof_leaves_CreatePipe_blocked:
  "(case CreatePipe_begin 1 [(upDialer, 1)] 9 (Some 0) (managerWith 16) emptyMemory of
      Started s \<Rightarrow>
        (case toBackend (session_step grow (PassToBackend eofRead) s) of
           Left l \<Rightarrow>
             err l = None \<and>
             (\<forall>sched. result (session_run grow sched (session_step grow (PassToBackend eofRead) s)) = None)
         | Running l \<Rightarrow> False)
    | _ \<Rightarrow> False)"
proof -
  obtain s where s: "CreatePipe_begin 1 [(upDialer, 1)] 9 (Some 0) (managerWith 16) emptyMemory = Started s"
    by (simp add: session_defs pool_defs copy_defs mem_defs)
  let ?s1 = "session_step grow (PassToBackend eofRead) s"
  have w: "caller_waits ?s1" using Started_waits [OF s] by (rule session_step_waits)
  have r: "\<forall>sched. result (session_run grow sched ?s1) = None"
    using session_run_waits [OF w] by (simp add: caller_waits_def)
  have l: "(case toBackend ?s1 of Left l \<Rightarrow> err l = None | Running l \<Rightarrow> False)"
    using s by (auto simp add: session_defs pool_defs copy_defs mem_defs)
  show ?thesis using s r l by (simp split: copier.splits)
qed


text \<open>C4 says that a buffer overflow while the backend is absent ends the pipe and is the
  return value of \<open>CreatePipe\<close>. In the code (limit 16, the backend read fails, then the
  client sends 17 bytes) the forward loop leaves with the buffer-limit error in its local
  variable only: for every schedule after it, \<open>CreatePipe\<close> has not returned.\<close>

theorem overflow_leaves_CreatePipe_blocked:
  "(case CreatePipe_begin 1 [(upDialer, 1)] 9 (Some 0) (managerWith 16) emptyMemory of
      Started s \<Rightarrow>
        (let s2 = session_run grow [PassFromBackend backendDown, PassToBackend seventeenBytes] s
         in BackendErr (pipe s2) = Some (readErr (Failure 1) CopyFromBacked) \<and>
            (case toBackend s2 of
               Left l \<Rightarrow> err l = Some (writeErr ErrBufferLimit None)
             | Running l \<Rightarrow> False) \<and>
            (\<forall>sched. result (session_run grow sched s2) = None))
    | _ \<Rightarrow> False)"
proof -
  obtain s where s: "CreatePipe_begin 1 [(upDialer, 1)] 9 (Some 0) (managerWith 16) emptyMemory = Started s"
    by (simp add: session_defs pool_defs copy_defs mem_defs)
  let ?s2 = "session_run grow [PassFromBackend backendDown, PassToBackend seventeenBytes] s"
  have w: "caller_waits ?s2" using Started_waits [OF s] by (rule session_run_waits)
  have r: "\<forall>sched. result (session_run grow sched ?s2) = None"
    using session_run_waits [OF w] by (simp add: caller_waits_def)
  have b: "BackendErr (pipe ?s2) = Some (readErr (Failure 1) CopyFromBacked)"
    using s by (auto simp add: session_defs pool_defs copy_defs mem_defs)
  have l: "(case toBackend ?s2 of Left l \<Rightarrow> err l = Some (writeErr ErrBufferLimit None) | Running l \<Rightarrow> False)"
    using s by (auto simp add: session_defs pool_defs copy_defs mem_defs)
  show ?thesis unfolding s Let_def using r l b by simp
qed




text \<open>The same holds for a call whose \<open>Stream\<close> failed: the pipe was stored before.\<close>

lemma stuck_CreatePipe_keeps_clientId:
  "CreatePipe_begin newId dials clientId conn pm m = StuckSending e pm1 \<Longrightarrow>
     clientPipesMap pm1 clientId = Some newId"
  unfolding CreatePipe_begin_def NewPersistentPipe_def Stream_def Let_def
  by (auto split: if_splits prod.splits option.splits)

end
